theory Spec2Isabelle
  imports Main "HOL-Library.AList"
begin

section \<open>Text operations of the Python runtime used by the analyzer\<close>

text \<open>
  Python strings are modelled as \<^typ>\<open>string\<close>: a list of characters, one per code point
  (code points below 256). \<open>len\<close> is \<^const>\<open>length\<close>.
\<close>

definition digit_char :: "nat \<Rightarrow> char" where
  "digit_char d = ''0123456789'' ! d"

text \<open>\<open>str(n)\<close> for a non-negative integer: its decimal digits.\<close>

function str_nat :: "nat \<Rightarrow> string" where
  "str_nat n = (if n < 10 then [digit_char n] else str_nat (n div 10) @ [digit_char (n mod 10)])"
  by pat_completeness auto
termination
  by (relation "measure (\<lambda>n. n)") auto

declare str_nat.simps [simp del]

text \<open>\<open>sep.join(xs)\<close>.\<close>

fun join_with :: "string \<Rightarrow> string list \<Rightarrow> string" where
  "join_with sep [] = []"
| "join_with sep [x] = x"
| "join_with sep (x # y # ys) = x @ sep @ join_with sep (y # ys)"

text \<open>\<open>s.endswith(suf)\<close>.\<close>

definition endswith :: "string \<Rightarrow> string \<Rightarrow> bool" where
  "endswith s suf = (length suf \<le> length s \<and> drop (length s - length suf) s = suf)"

text \<open>\<open>s.split(".")[0]\<close>: everything before the first dot.\<close>

definition top_component :: "string \<Rightarrow> string" where
  "top_component s = takeWhile (\<lambda>c. c \<noteq> CHR ''.'') s"

text \<open>
  The line boundaries of \<open>str.splitlines\<close> among the code points below 256:
  LF, CR, VT, FF, FS, GS, RS and NEL; CR immediately followed by LF is one boundary.
\<close>

definition is_linebreak :: "char \<Rightarrow> bool" where
  "is_linebreak c = (of_char c \<in> {10, 11, 12, 13, 28, 29, 30, 133 :: nat})"

text \<open>
  \<open>s.splitlines()\<close>. The head of the result for the rest of the text is the line that the
  current character continues; a text that ends in a boundary has no empty last line.
\<close>

fun splitlines :: "string \<Rightarrow> string list" where
  "splitlines [] = []"
| "splitlines [c] = (if is_linebreak c then [[]] else [[c]])"
| "splitlines (c # d # cs) =
     (if c = CHR 0x0D \<and> d = CHR 0x0A then [] # splitlines cs
      else if is_linebreak c then [] # splitlines (d # cs)
      else (case splitlines (d # cs) of
              [] \<Rightarrow> [[c]]
            | l # ls \<Rightarrow> (c # l) # ls))"

text \<open>\<open>os.path.join(a, b)\<close> on a POSIX system.\<close>

definition os_path_join :: "string \<Rightarrow> string \<Rightarrow> string" where
  "os_path_join a b =
     (if b \<noteq> [] \<and> hd b = CHR ''/'' then b
      else if a = [] \<or> last a = CHR ''/'' then a @ b
      else a @ ''/'' @ b)"

text \<open>\<open>os.path.basename(p)\<close>: what follows the last slash.\<close>

definition os_path_basename :: "string \<Rightarrow> string" where
  "os_path_basename p = rev (takeWhile (\<lambda>c. c \<noteq> CHR ''/'') (rev p))"

text \<open>
  \<open>os.path.splitext(b)[0]\<close> for a name \<open>b\<close> without slash: the name up to its last dot,
  unless only dots precede that dot (or there is none), when it is the whole name.
\<close>

definition splitext_root :: "string \<Rightarrow> string" where
  "splitext_root b =
     (let r = dropWhile (\<lambda>c. c \<noteq> CHR ''.'') (rev b) in
      if r = [] then b
      else (let stem = rev (tl r) in
            if list_ex (\<lambda>c. c \<noteq> CHR ''.'') stem then stem else b))"

section \<open>Syntax trees\<close>

text \<open>
  The node classes of Python's \<open>ast\<close> module that the analyzer tests with \<open>isinstance\<close>;
  every other class is \<open>ast_Other\<close>. A definition node carries its \<open>name\<close> and the value
  of \<open>ast.get_docstring\<close> for it; \<open>ast_Import\<close> carries the names of its aliases and
  \<open>ast_ImportFrom\<close> its \<open>module\<close> attribute (\<open>None\<close> for \<open>from . import x\<close>).
\<close>

datatype kind =
    ast_Module
  | ast_FunctionDef string "string option"
  | ast_AsyncFunctionDef string "string option"
  | ast_ClassDef string "string option"
  | ast_If
  | ast_For
  | ast_While
  | ast_And
  | ast_Or
  | ast_Try
  | ast_With
  | ast_ExceptHandler
  | ast_Import "string list"
  | ast_ImportFrom "string option"
  | ast_Other

text \<open>A node: its class, its \<open>lineno\<close> and its children in the order of \<open>ast.iter_child_nodes\<close>.\<close>

datatype ast = Node (kind: kind) (lineno: nat) (children: "ast list")

text \<open>
  \<open>ast.walk\<close>: a queue of nodes; the first is taken out and yielded, its children are put at
  the end. \<open>walk [tree]\<close> is the sequence \<open>ast.walk(tree)\<close> yields.
\<close>

function walk :: "ast list \<Rightarrow> ast list" where
  "walk [] = []"
| "walk (n # todo) = n # walk (todo @ children n)"
  by pat_completeness auto
termination
proof (relation "measure (size_list size)")
  show "wf (measure (size_list size))" by simp
next
  fix n :: ast and todo :: "ast list"
  show "(todo @ children n, n # todo) \<in> measure (size_list size)"
    by (cases n) simp
qed

section \<open>The analyzer's state\<close>

text \<open>
  The \<open>results\<close> dictionary of \<open>CodeAnalyzer\<close>, one field per key, and \<open>printed\<close>: the
  text of each \<open>print\<close> call so far. The two dictionaries are association lists in
  insertion order; \<open>AList.update\<close> is the dictionary assignment \<open>d[k] = v\<close> (a new key goes
  to the end, a known key keeps its place). Key \<open>imports_graph\<close> is read with default \<open>{}\<close>
  and created on first use, so an absent key is the empty list.
\<close>

record analyzer =
  files :: "string list"
  errors :: "string list"
  warnings :: "string list"
  complexity :: "(string \<times> nat) list"
  missing_docstrings :: "string list"
  duplicates :: "string list"
  import_cycles :: "string list"
  pep8 :: "string list"
  imports_graph :: "(string \<times> string list) list"
  printed :: "string list"

text \<open>\<open>CodeAnalyzer.__init__\<close>.\<close>

definition init :: analyzer where
  "init = \<lparr>files = [], errors = [], warnings = [], complexity = [], missing_docstrings = [],
     duplicates = [], import_cycles = [], pep8 = [], imports_graph = [], printed = []\<rparr>"

section \<open>Rule evaluators\<close>

subsection \<open>Docstring analysis\<close>

text \<open>
  For a node of one of the three definition classes: its class name, its name and its
  docstring.
\<close>

fun definition_info :: "kind \<Rightarrow> (string \<times> string \<times> string option) option" where
  "definition_info (ast_FunctionDef name doc) = Some (''FunctionDef'', name, doc)"
| "definition_info (ast_AsyncFunctionDef name doc) = Some (''AsyncFunctionDef'', name, doc)"
| "definition_info (ast_ClassDef name doc) = Some (''ClassDef'', name, doc)"
| "definition_info _ = None"

definition docstring_step :: "string \<Rightarrow> ast \<Rightarrow> analyzer \<Rightarrow> analyzer" where
  "docstring_step filepath node st =
     (case definition_info (kind node) of
        None \<Rightarrow> st
      | Some (cls, name, doc) \<Rightarrow>
          (if doc = None
           then st\<lparr>missing_docstrings := missing_docstrings st @
                  [filepath @ '':'' @ str_nat (lineno node) @ '' -> Missing docstring in '' @
                   cls @ '' '' @ [CHR 0x27] @ name @ [CHR 0x27]]\<rparr>
           else st))"

definition analyze_docstrings :: "string \<Rightarrow> ast \<Rightarrow> analyzer \<Rightarrow> analyzer" where
  "analyze_docstrings filepath tree st = fold (docstring_step filepath) (walk [tree]) st"

subsection \<open>Complexity\<close>

text \<open>The \<open>isinstance\<close> test of \<open>_compute_complexity\<close>.\<close>

fun is_decision :: "kind \<Rightarrow> bool" where
  "is_decision ast_If = True"
| "is_decision ast_For = True"
| "is_decision ast_While = True"
| "is_decision ast_And = True"
| "is_decision ast_Or = True"
| "is_decision ast_Try = True"
| "is_decision ast_With = True"
| "is_decision ast_ExceptHandler = True"
| "is_decision _ = False"

text \<open>The loop of \<open>_compute_complexity\<close>: the counter starts at 1.\<close>

definition complexity_of :: "ast \<Rightarrow> nat" where
  "complexity_of tree =
     fold (\<lambda>node c. if is_decision (kind node) then c + 1 else c) (walk [tree]) 1"

definition complexity_warning :: "string \<Rightarrow> nat \<Rightarrow> string" where
  "complexity_warning filepath c = filepath @ '' has high cyclomatic complexity: '' @ str_nat c"

definition compute_complexity :: "string \<Rightarrow> ast \<Rightarrow> analyzer \<Rightarrow> analyzer" where
  "compute_complexity filepath tree st =
     (let c = complexity_of tree;
          st' = st\<lparr>complexity := AList.update filepath c (complexity st)\<rparr>
      in if 12 < c
         then st'\<lparr>warnings := warnings st' @ [complexity_warning filepath c]\<rparr>
         else st')"

subsection \<open>Structural analysis\<close>

text \<open>\<open>_nesting_depth(node, current)\<close>; \<open>max\<close> of a list that starts with \<open>current\<close>.\<close>

fun nesting_depth :: "ast \<Rightarrow> nat \<Rightarrow> nat" where
  "nesting_depth (Node k l cs) current =
     (if k \<noteq> ast_If then current
      else fold max (map (\<lambda>child. nesting_depth child (current + 1)) cs) current)"

definition nesting_warning :: "string \<Rightarrow> nat \<Rightarrow> nat \<Rightarrow> string" where
  "nesting_warning filepath line depth =
     filepath @ '':'' @ str_nat line @ '' -> Deep nesting ('' @ str_nat depth @ '' levels)''"

definition structure_step :: "string \<Rightarrow> ast \<Rightarrow> analyzer \<Rightarrow> analyzer" where
  "structure_step filepath node st =
     (if kind node = ast_If
      then (let depth = nesting_depth node 0
            in if 4 < depth
               then st\<lparr>warnings := warnings st @ [nesting_warning filepath (lineno node) depth]\<rparr>
               else st)
      else st)"

definition analyze_structure :: "string \<Rightarrow> ast \<Rightarrow> analyzer \<Rightarrow> analyzer" where
  "analyze_structure filepath tree st = fold (structure_step filepath) (walk [tree]) st"

subsection \<open>Style checks\<close>

text \<open>The character class \<open>[A-Za-z0-9_]\<close>.\<close>

definition is_word_char :: "char \<Rightarrow> bool" where
  "is_word_char c =
     (let n = (of_char c :: nat)
      in (65 \<le> n \<and> n \<le> 90) \<or> (97 \<le> n \<and> n \<le> 122) \<or> (48 \<le> n \<and> n \<le> 57) \<or> n = 95)"

text \<open>\<open>re.search(r",[A-Za-z0-9_]", line)\<close> finds a match.\<close>

fun comma_then_word :: "string \<Rightarrow> bool" where
  "comma_then_word (c # d # cs) = ((c = CHR '','' \<and> is_word_char d) \<or> comma_then_word (d # cs))"
| "comma_then_word _ = False"

definition line_too_long :: "string \<Rightarrow> nat \<Rightarrow> nat \<Rightarrow> string" where
  "line_too_long filepath i n =
     filepath @ '':'' @ str_nat i @ '' -> Line too long ('' @ str_nat n @ '' > 120)''"

definition trailing_whitespace :: "string \<Rightarrow> nat \<Rightarrow> string" where
  "trailing_whitespace filepath i = filepath @ '':'' @ str_nat i @ '' -> Trailing whitespace''"

definition missing_space :: "string \<Rightarrow> nat \<Rightarrow> string" where
  "missing_space filepath i = filepath @ '':'' @ str_nat i @ '' -> Missing space after comma''"

definition tab_indent :: "string \<Rightarrow> nat \<Rightarrow> string" where
  "tab_indent filepath i = filepath @ '':'' @ str_nat i @ '' -> Tab indent found (use 4 spaces)''"

text \<open>What the body of the loop of \<open>_check_pep8\<close> appends for line \<open>i\<close>, in order.\<close>

definition pep8_line :: "string \<Rightarrow> nat \<Rightarrow> string \<Rightarrow> string list" where
  "pep8_line filepath i line =
     (if 120 < length line then [line_too_long filepath i (length line)] else []) @
     (if endswith line '' '' then [trailing_whitespace filepath i] else []) @
     (if comma_then_word line then [missing_space filepath i] else []) @
     (if CHR 0x09 \<in> set line then [tab_indent filepath i] else [])"

definition check_pep8 :: "string \<Rightarrow> string \<Rightarrow> analyzer \<Rightarrow> analyzer" where
  "check_pep8 filepath code st =
     fold (\<lambda>(i, line) st. st\<lparr>pep8 := pep8 st @ pep8_line filepath i line\<rparr>)
       (enumerate 1 (splitlines code)) st"

subsection \<open>Import extraction\<close>

text \<open>What one node adds to the list \<open>imports\<close> in the loop of \<open>_register_imports\<close>.\<close>

fun node_imports :: "kind \<Rightarrow> string list" where
  "node_imports (ast_Import names) = map top_component names"
| "node_imports (ast_ImportFrom module) =
     (case module of
        None \<Rightarrow> []
      | Some m \<Rightarrow> if m = [] then [] else [top_component m])"
| "node_imports _ = []"

definition imports_of :: "ast \<Rightarrow> string list" where
  "imports_of tree = fold (\<lambda>node imports. imports @ node_imports (kind node)) (walk [tree]) []"

definition register_imports :: "string \<Rightarrow> ast \<Rightarrow> analyzer \<Rightarrow> analyzer" where
  "register_imports filepath tree st =
     (let basename = splitext_root (os_path_basename filepath)
      in st\<lparr>imports_graph := AList.update basename (imports_of tree) (imports_graph st)\<rparr>)"

section \<open>The file system\<close>

text \<open>
  What the analyzer sees of the file system, constant during a run. \<open>path_object\<close> is what
  a path names: nothing, a file, or a directory with its entries in listing order (no
  symbolic links, every directory listable). \<open>read_text p\<close> is the result of
  \<open>open(p, "r", encoding="utf-8").read()\<close>: \<open>None\<close> when opening or decoding raises.
\<close>

datatype fsobj = File | Dir "(string \<times> fsobj) list"

record filesystem =
  path_object :: "string \<Rightarrow> fsobj option"
  read_text :: "string \<Rightarrow> string option"

fun is_dir :: "fsobj \<Rightarrow> bool" where
  "is_dir (Dir entries) = True"
| "is_dir File = False"

definition os_path_isfile :: "filesystem \<Rightarrow> string \<Rightarrow> bool" where
  "os_path_isfile fs p = (path_object fs p = Some File)"

definition os_path_isdir :: "filesystem \<Rightarrow> string \<Rightarrow> bool" where
  "os_path_isdir fs p = (case path_object fs p of Some obj \<Rightarrow> is_dir obj | None \<Rightarrow> False)"

text \<open>
  \<open>os.walk(dirpath)\<close>, top-down: the triple of a directory (its path, the names of its
  subdirectories, the names of its other entries), then the walk of each subdirectory.
\<close>

fun walk_dir :: "string \<Rightarrow> (string \<times> fsobj) list \<Rightarrow> (string \<times> string list \<times> string list) list"
  and walk_subdirs :: "string \<Rightarrow> (string \<times> fsobj) list \<Rightarrow> (string \<times> string list \<times> string list) list"
where
  "walk_dir dirpath entries =
     (dirpath, map fst (filter (\<lambda>e. is_dir (snd e)) entries),
           map fst (filter (\<lambda>e. \<not> is_dir (snd e)) entries)) # walk_subdirs dirpath entries"
| "walk_subdirs dirpath [] = []"
| "walk_subdirs dirpath ((name, File) # rest) = walk_subdirs dirpath rest"
| "walk_subdirs dirpath ((name, Dir sub) # rest) =
     walk_dir (os_path_join dirpath name) sub @ walk_subdirs dirpath rest"

text \<open>\<open>os.walk(path)\<close>; a path that is no directory yields nothing.\<close>

definition os_walk :: "filesystem \<Rightarrow> string \<Rightarrow> (string \<times> string list \<times> string list) list" where
  "os_walk fs path =
     (case path_object fs path of
        Some (Dir entries) \<Rightarrow> walk_dir path entries
      | _ \<Rightarrow> [])"

section \<open>Per-file analysis\<close>

text \<open>
  The parser \<open>ast.parse\<close> is a parameter of the model. Its outcomes: the tree; a
  \<open>SyntaxError\<close>, with its text; or an exception of another class, with its text
  (\<open>ValueError\<close> for a text with a null byte in some versions of the interpreter,
  \<open>RecursionError\<close> for an expression nested too deep, \<open>MemoryError\<close>).
\<close>

datatype parse_outcome = Parsed ast | Syntax_Error string | Other_Error string

text \<open>
  The exceptions that no handler of the analyzer catches: a file that
  \<open>_detect_duplicates\<close> cannot open or decode, and an exception of the parser that is no
  \<open>SyntaxError\<close>. A result \<open>Inl (e, st)\<close> is the exception \<open>e\<close> raised with the state \<open>st\<close> at
  that moment, \<open>Inr st\<close> the normal return.
\<close>

datatype error = ReadFailure string | ParserError string

text \<open>
  \<open>_analyze_file\<close>. The handler around the reading is a bare \<open>except\<close>; the handler around
  the parser catches \<open>SyntaxError\<close> only.
\<close>

definition analyze_file ::
  "filesystem \<Rightarrow> (string \<Rightarrow> parse_outcome) \<Rightarrow> string \<Rightarrow> analyzer \<Rightarrow>
     (error \<times> analyzer) + analyzer" where
  "analyze_file fs parse filepath st =
     (let st1 = st\<lparr>files := files st @ [filepath]\<rparr> in
      case read_text fs filepath of
        None \<Rightarrow> Inr (st1\<lparr>errors := errors st1 @ [''Cannot read file: '' @ filepath]\<rparr>)
      | Some code \<Rightarrow>
          (case parse code of
             Syntax_Error e \<Rightarrow>
               Inr (st1\<lparr>errors := errors st1 @ [''Syntax error in '' @ filepath @ '': '' @ e]\<rparr>)
           | Other_Error e \<Rightarrow> Inl (ParserError e, st1)
           | Parsed tree \<Rightarrow>
               Inr (register_imports filepath tree
                      (check_pep8 filepath code
                        (analyze_structure filepath tree
                          (compute_complexity filepath tree
                            (analyze_docstrings filepath tree st1)))))))"

section \<open>Cross-file analyzers\<close>

subsection \<open>Import cycles\<close>

text \<open>\<open>graph.get(node, [])\<close>.\<close>

definition graph_get :: "(string \<times> string list) list \<Rightarrow> string \<Rightarrow> string list" where
  "graph_get graph node = (case map_of graph node of None \<Rightarrow> [] | Some nxts \<Rightarrow> nxts)"

definition cycle_message :: "string list \<Rightarrow> string" where
  "cycle_message nodes = ''Cycle detected: '' @ join_with '' -> '' nodes"

text \<open>
  The inner function \<open>dfs\<close>; its value is the list of the findings it appends to
  \<open>import_cycles\<close>, in order. The path grows by a key of the graph that it did not hold,
  so the recursion ends.
\<close>

function dfs :: "(string \<times> string list) list \<Rightarrow> string \<Rightarrow> string list \<Rightarrow> string list" where
  "dfs graph node path =
     (if node \<in> set path then [cycle_message (path @ [node])]
      else concat (map (\<lambda>nxt. dfs graph nxt (path @ [node])) (graph_get graph node)))"
  by pat_completeness auto
termination
proof (relation "measure (\<lambda>(graph, node, path). card (fst ` set graph - set path))")
  show "wf (measure (\<lambda>(graph, node, path). card (fst ` set graph - set path)))" by simp
next
  fix graph :: "(string \<times> string list) list" and node nxt :: string and path :: "string list"
  assume fresh: "node \<notin> set path" and nxt: "nxt \<in> set (graph_get graph node)"
  from nxt have "map_of graph node \<noteq> None"
    by (cases "map_of graph node") (simp_all add: graph_get_def)
  then obtain nxts where "map_of graph node = Some nxts"
    by blast
  then have key: "node \<in> fst ` set graph"
    by (auto dest!: map_of_SomeD intro: rev_image_eqI)
  have "fst ` set graph - set (path @ [node]) \<subset> fst ` set graph - set path"
    using fresh key by auto
  then have "card (fst ` set graph - set (path @ [node])) < card (fst ` set graph - set path)"
    by (intro psubset_card_mono) auto
  then show "((graph, nxt, path @ [node]), (graph, node, path))
      \<in> measure (\<lambda>(graph, node, path). card (fst ` set graph - set path))"
    by simp
qed

declare dfs.simps [simp del]

definition detect_import_cycles :: "analyzer \<Rightarrow> analyzer" where
  "detect_import_cycles st =
     (let graph = imports_graph st
      in st\<lparr>import_cycles := import_cycles st @
              concat (map (\<lambda>start. dfs graph start []) (map fst graph))\<rparr>)"

subsection \<open>Duplicates\<close>

text \<open>
  \<open>seen\<close> is a \<open>defaultdict(list)\<close>: \<open>seen[snippet]\<close> is the empty list for a new key, and
  \<open>seen[snippet].append(fpath)\<close> stores the longer list under the key.
\<close>

definition seen_get :: "(string list \<times> string list) list \<Rightarrow> string list \<Rightarrow> string list" where
  "seen_get seen snippet = (case map_of seen snippet of None \<Rightarrow> [] | Some fls \<Rightarrow> fls)"

definition seen_append ::
  "string list \<Rightarrow> string \<Rightarrow> (string list \<times> string list) list \<Rightarrow> (string list \<times> string list) list" where
  "seen_append snippet fpath seen = AList.update snippet (seen_get seen snippet @ [fpath]) seen"

text \<open>The first loop of \<open>_detect_duplicates\<close>: it reads every listed file again.\<close>

fun collect_seen ::
  "filesystem \<Rightarrow> string list \<Rightarrow> (string list \<times> string list) list \<Rightarrow>
     error + (string list \<times> string list) list" where
  "collect_seen fs [] seen = Inr seen"
| "collect_seen fs (fpath # rest) seen =
     (case read_text fs fpath of
        None \<Rightarrow> Inl (ReadFailure fpath)
      | Some text \<Rightarrow> collect_seen fs rest (seen_append (take 10 (splitlines text)) fpath seen))"

definition duplicate_message :: "string list \<Rightarrow> string" where
  "duplicate_message fls = ''Possible duplicate code in: '' @ join_with '', '' fls"

definition detect_duplicates :: "filesystem \<Rightarrow> analyzer \<Rightarrow> (error \<times> analyzer) + analyzer" where
  "detect_duplicates fs st =
     (case collect_seen fs (files st) [] of
        Inl e \<Rightarrow> Inl (e, st)
      | Inr seen \<Rightarrow>
          Inr (fold (\<lambda>(snippet, fls) st.
                  if 1 < length fls
                  then st\<lparr>duplicates := duplicates st @ [duplicate_message fls]\<rparr>
                  else st) seen st))"

section \<open>The run\<close>

definition print_section :: "string \<Rightarrow> string list \<Rightarrow> string list \<Rightarrow> string list" where
  "print_section title items out =
     (if items \<noteq> [] then out @ [title] @ map (\<lambda>e. ''  - '' @ e) items else out)"

text \<open>\<open>_print_summary\<close>: one entry of \<open>printed\<close> per \<open>print\<close> call.\<close>

definition print_summary :: "analyzer \<Rightarrow> analyzer" where
  "print_summary st =
     st\<lparr>printed :=
          (print_section (CHR 0x0A # ''Duplicate code warnings:'') (duplicates st)
          (print_section (CHR 0x0A # ''Import cycles:'') (import_cycles st)
          (print_section (CHR 0x0A # ''PEP8 issues:'') (pep8 st)
          (print_section (CHR 0x0A # ''Missing docstrings:'') (missing_docstrings st)
          (print_section (CHR 0x0A # ''Warnings:'') (warnings st)
          (print_section (CHR 0x0A # ''Errors:'') (errors st)
          (printed st @
             [CHR 0x0A # ''ANALYSIS SUMMARY'',
              ''Analyzed files: '' @ str_nat (length (files st))]))))))) @
          [CHR 0x0A # ''END OF REPORT'' @ [CHR 0x0A]]\<rparr>"

text \<open>
  The two nested loops of \<open>run\<close> over the triples of \<open>os.walk\<close>: the inner loop over the
  names of one directory, the outer loop over the triples. An exception of \<open>_analyze_file\<close>
  ends both.
\<close>

fun analyze_names ::
  "filesystem \<Rightarrow> (string \<Rightarrow> parse_outcome) \<Rightarrow> string \<Rightarrow> string list \<Rightarrow> analyzer \<Rightarrow>
     (error \<times> analyzer) + analyzer" where
  "analyze_names fs parse root [] st = Inr st"
| "analyze_names fs parse root (f # fls) st =
     (if endswith f ''.py''
      then (case analyze_file fs parse (os_path_join root f) st of
              Inl e \<Rightarrow> Inl e
            | Inr st' \<Rightarrow> analyze_names fs parse root fls st')
      else analyze_names fs parse root fls st)"

fun analyze_walk ::
  "filesystem \<Rightarrow> (string \<Rightarrow> parse_outcome) \<Rightarrow> (string \<times> string list \<times> string list) list \<Rightarrow>
     analyzer \<Rightarrow> (error \<times> analyzer) + analyzer" where
  "analyze_walk fs parse [] st = Inr st"
| "analyze_walk fs parse ((root, dirs, fls) # rest) st =
     (case analyze_names fs parse root fls st of
        Inl e \<Rightarrow> Inl e
      | Inr st' \<Rightarrow> analyze_walk fs parse rest st')"

text \<open>
  The per-file phase of \<open>run\<close>: \<open>None\<close> is the branch of the invalid path.
\<close>

definition analyze_root ::
  "filesystem \<Rightarrow> (string \<Rightarrow> parse_outcome) \<Rightarrow> string \<Rightarrow> analyzer \<Rightarrow>
     ((error \<times> analyzer) + analyzer) option" where
  "analyze_root fs parse path st =
     (if os_path_isfile fs path \<and> endswith path ''.py'' then Some (analyze_file fs parse path st)
      else if os_path_isdir fs path then Some (analyze_walk fs parse (os_walk fs path) st)
      else None)"

text \<open>\<open>CodeAnalyzer(path).run()\<close>.\<close>

definition run ::
  "filesystem \<Rightarrow> (string \<Rightarrow> parse_outcome) \<Rightarrow> string \<Rightarrow> (error \<times> analyzer) + analyzer" where
  "run fs parse path =
     (let st0 = init\<lparr>printed := [''[Analyzer] Starting analysis: '' @ path]\<rparr> in
      case analyze_root fs parse path st0 of
        None \<Rightarrow> Inr (st0\<lparr>printed := printed st0 @ [''[ERROR] Invalid path.'']\<rparr>)
      | Some (Inl e) \<Rightarrow> Inl e
      | Some (Inr st1) \<Rightarrow>
          (case detect_duplicates fs (detect_import_cycles st1) of
             Inl e \<Rightarrow> Inl e
           | Inr st2 \<Rightarrow> Inr (print_summary st2)))"

text \<open>The state that a run leaves behind, however it ends.\<close>

fun final_state :: "(error \<times> analyzer) + analyzer \<Rightarrow> analyzer" where
  "final_state (Inl (e, st)) = st"
| "final_state (Inr st) = st"

section \<open>Notions that the properties are stated with\<close>

text \<open>The number of decision-point nodes in a tree, by recursion over the tree.\<close>

fun count_decisions :: "ast \<Rightarrow> nat" where
  "count_decisions (Node k l cs) =
     (if is_decision k then 1 else 0) + sum_list (map count_decisions cs)"

text \<open>
  A tree without decision points, and a tree with twelve: a loop that holds an \<open>if\<close> with
  ten \<open>elif\<close>-free \<open>if\<close> statements in its body.
\<close>

definition plain_tree :: ast where
  "plain_tree = Node ast_Module 0 [Node ast_Other 1 [Node ast_Other 1 []]]"

definition busy_tree :: ast where
  "busy_tree =
     Node ast_Module 0
       [Node ast_For 1
          [Node ast_If 2 (Node ast_Other 2 [] # replicate 10 (Node ast_If 3 [Node ast_Other 3 []]))]]"

text \<open>
  The depth of conditional nesting as the specification words it: for an \<open>if\<close>, 1 plus the
  largest depth of a conditional among its descendants, whatever nodes lie between (for
  another node, the largest depth of a conditional in its subtree, 0 when there is none).
\<close>

fun descendant_depth :: "ast \<Rightarrow> nat" where
  "descendant_depth (Node k l cs) =
     (if k = ast_If then 1 else 0) + fold max (map descendant_depth cs) 0"

text \<open>
  The depth along chains of conditionals that are direct children of one another: for an
  \<open>if\<close>, 1 plus the largest such depth of a child (a child that is no \<open>if\<close> has depth 0).
\<close>

fun chain_depth :: "ast \<Rightarrow> nat" where
  "chain_depth (Node k l cs) =
     (if k = ast_If then 1 + fold max (map chain_depth cs) 0 else 0)"

text \<open>
  Every \<open>if\<close> node of a tree of the parser has children: at least its test expression and
  one statement of its body.
\<close>

fun if_has_child :: "ast \<Rightarrow> bool" where
  "if_has_child (Node k l cs) = ((k = ast_If \<longrightarrow> cs \<noteq> []) \<and> list_all if_has_child cs)"

text \<open>
  Five conditionals, each the direct child of the one before (as \<open>if\<close> in \<open>if\<close>, or
  \<open>elif\<close>), and five conditionals, each inside a loop in the body of the one before.
\<close>

definition if_chain :: ast where
  "if_chain =
     Node ast_If 1 [Node ast_Other 1 [],
       Node ast_If 2 [Node ast_Other 2 [],
         Node ast_If 3 [Node ast_Other 3 [],
           Node ast_If 4 [Node ast_Other 4 [],
             Node ast_If 5 [Node ast_Other 5 [], Node ast_Other 6 []]]]]]"

definition if_in_loops :: ast where
  "if_in_loops =
     Node ast_If 1 [Node ast_Other 1 [], Node ast_For 2 [
       Node ast_If 3 [Node ast_Other 3 [], Node ast_For 4 [
         Node ast_If 5 [Node ast_Other 5 [], Node ast_For 6 [
           Node ast_If 7 [Node ast_Other 7 [], Node ast_For 8 [
             Node ast_If 9 [Node ast_Other 9 [], Node ast_Other 10 []]]]]]]]]]"



text \<open>
  A tree with every import-from statement that has no module (\<open>from . import x\<close>) turned
  into a node of another class; its children stay.
\<close>

fun erase_relative :: "ast \<Rightarrow> ast" where
  "erase_relative (Node k l cs) =
     Node (if k = ast_ImportFrom None then ast_Other else k) l (map erase_relative cs)"

text \<open>
  The signature of a file for duplicate detection: the first 10 lines of its text, all
  lines when it has fewer.
\<close>

definition signature :: "filesystem \<Rightarrow> string \<Rightarrow> string list option" where
  "signature fs p = map_option (\<lambda>text. take 10 (splitlines text)) (read_text fs p)"

text \<open>The groups of \<open>seen\<close> that the second loop of \<open>_detect_duplicates\<close> reports.\<close>

definition duplicate_groups :: "(string list \<times> string list) list \<Rightarrow> string list list" where
  "duplicate_groups seen = filter (\<lambda>fls. 1 < length fls) (map snd seen)"

text \<open>
  A directory with two files of the same text and a third file that cannot be read.
\<close>

definition mixed_fs :: filesystem where
  "mixed_fs =
     \<lparr>path_object = (\<lambda>p.
        if p = ''proj'' then Some (Dir [(''a.py'', File), (''c.py'', File), (''d.py'', File)])
        else None),
      read_text = (\<lambda>p.
        if p = ''proj/a.py'' \<or> p = ''proj/c.py'' then Some ''x = 1'' else None)\<rparr>"

text \<open>
  A directory with two files: the text of the first holds a null byte, the second is
  accepted by the parser.
\<close>

definition nul_fs :: filesystem where
  "nul_fs =
     \<lparr>path_object = (\<lambda>p.
        if p = ''proj'' then Some (Dir [(''a.py'', File), (''z.py'', File)]) else None),
      read_text = (\<lambda>p.
        if p = ''proj/a.py'' then Some (''x = 1'' @ [CHR 0x00])
        else if p = ''proj/z.py'' then Some ''x = 1''
        else None)\<rparr>"




definition lenient_parse :: "string \<Rightarrow> parse_outcome" where
  "lenient_parse code = Parsed plain_tree"

text \<open>The analyzed files of the example project.\<close>

definition example_files :: "string list" where
  "example_files = [''proj/a.py'', ''proj/b.py'', ''proj/sub/c.py'']"

text \<open>
  The files with the suffix \<open>.py\<close> among the entries of a directory and, recursively, of
  its subdirectories, counted by recursion over the directory tree.
\<close>

fun count_py :: "(string \<times> fsobj) list \<Rightarrow> nat" where
  "count_py [] = 0"
| "count_py ((name, File) # rest) = (if endswith name ''.py'' then 1 else 0) + count_py rest"
| "count_py ((name, Dir sub) # rest) = count_py sub + count_py rest"

text \<open>
  The number of files discovered under a root: one for a file with the suffix, the count
  over the directory tree for a directory.
\<close>

definition discovered_count :: "filesystem \<Rightarrow> string \<Rightarrow> nat" where
  "discovered_count fs path =
     (if os_path_isfile fs path \<and> endswith path ''.py'' then 1
      else (case path_object fs path of
              Some (Dir entries) \<Rightarrow> count_py entries
            | _ \<Rightarrow> 0))"

text \<open>A root is valid when \<open>run\<close> takes one of its first two branches.\<close>

definition valid_root :: "filesystem \<Rightarrow> string \<Rightarrow> bool" where
  "valid_root fs path = ((os_path_isfile fs path \<and> endswith path ''.py'') \<or> os_path_isdir fs path)"

text \<open>
  A parser that accepts one text, raises \<open>ValueError\<close> for a text with a null byte and
  \<open>SyntaxError\<close> for any other text, and a project directory: two files with that text, one
  file that does not parse, one file without the suffix and a subdirectory.
\<close>

definition example_parse :: "string \<Rightarrow> parse_outcome" where
  "example_parse code =
     (if CHR 0x00 \<in> set code then Other_Error ''source code string cannot contain null bytes''
      else if code = ''x = 1'' then Parsed plain_tree
      else Syntax_Error ''invalid syntax (<unknown>, line 1)'')"

definition example_fs :: filesystem where
  "example_fs =
     \<lparr>path_object = (\<lambda>p.
        if p = ''proj''
        then Some (Dir [(''a.py'', File), (''b.py'', File), (''notes.txt'', File),
                        (''sub'', Dir [(''c.py'', File)])])
        else if p = ''proj/a.py'' then Some File
        else None),
      read_text = (\<lambda>p.
        if p = ''proj/a.py'' \<or> p = ''proj/sub/c.py'' then Some ''x = 1''
        else if p = ''proj/b.py'' then Some ''x = (''
        else None)\<rparr>"

text \<open>A directory whose only file cannot be read.\<close>

definition unreadable_fs :: filesystem where
  "unreadable_fs =
     \<lparr>path_object = (\<lambda>p. if p = ''proj'' then Some (Dir [(''a.py'', File)]) else None),
      read_text = (\<lambda>p. None)\<rparr>"

section \<open>Properties\<close>

subsection \<open>The tree walk\<close>

lemma fold_count_filter:
  "fold (\<lambda>x c. if P x then c + 1 else c) xs (c0 :: nat) = c0 + length (filter P xs)"
  by (induction xs arbitrary: c0) simp_all

lemma walk_count_decisions:
  "length (filter (\<lambda>n. is_decision (kind n)) (walk ts)) = sum_list (map count_decisions ts)"
proof (induction ts rule: walk.induct)
  case 1
  show ?case by simp
next
  case (2 n todo)
  then show ?case by (cases n) simp
qed

lemma complexity_of_count: "complexity_of tree = 1 + count_decisions tree"
proof -
  have "length (filter (\<lambda>n. is_decision (kind n)) (walk [tree])) = count_decisions tree"
    by (simp only: walk_count_decisions) simp
  then show ?thesis
    by (simp only: complexity_of_def fold_count_filter)
qed

subsection \<open>Complexity\<close>

text \<open>
  C4. The complexity score of a tree is 1 plus the number of decision-point nodes (\<open>if\<close>,
  \<open>for\<close>, \<open>while\<close>, \<open>and\<close>, \<open>or\<close>, \<open>try\<close>, \<open>with\<close>, exception handler) anywhere in the
  tree; it is at least 1, and exactly 1 for a tree with no decision point. The score is
  stored under the file's path, and the warning that cites the file and the score is
  emitted if and only if the score exceeds 12.
\<close>

theorem complexity_score:
  "complexity_of tree = 1 + count_decisions tree \<and>
   1 \<le> complexity_of tree \<and>
   (count_decisions tree = 0 \<longrightarrow> complexity_of tree = 1) \<and>
   complexity (compute_complexity filepath tree st) =
     AList.update filepath (complexity_of tree) (complexity st) \<and>
   warnings (compute_complexity filepath tree st) =
     warnings st @
       (if 12 < complexity_of tree then [complexity_warning filepath (complexity_of tree)] else [])"
  by (simp add: complexity_of_count compute_complexity_def Let_def)

theorem complexity_score_witness:
  "count_decisions plain_tree = 0 \<and> complexity_of plain_tree = 1 \<and>
   warnings (compute_complexity ''a.py'' plain_tree init) = [] \<and>
   complexity_of busy_tree = 13 \<and>
   complexity (compute_complexity ''a.py'' busy_tree init) = [(''a.py'', 13)] \<and>
   warnings (compute_complexity ''a.py'' busy_tree init) =
     [''a.py has high cyclomatic complexity: 13'']"
proof -
  have plain: "count_decisions plain_tree = 0"
    by (simp add: plain_tree_def)
  have busy: "count_decisions busy_tree = 12"
    by (simp add: busy_tree_def sum_list_replicate)
  have digits: "str_nat 13 = ''13''"
    by (simp add: str_nat.simps digit_char_def)
  show ?thesis
    using complexity_score [of plain_tree "''a.py''" init]
      complexity_score [of busy_tree "''a.py''" init]
    by (simp add: plain busy digits init_def complexity_warning_def)
qed

subsection \<open>The list of analyzed files\<close>

lemma fold_preserves: "(\<And>x s. g (f x s) = g s) \<Longrightarrow> g (fold f xs s) = g s"
  by (induction xs arbitrary: s) simp_all

lemma files_analyze_docstrings [simp]: "files (analyze_docstrings fp t st) = files st"
  unfolding analyze_docstrings_def
  by (rule fold_preserves) (simp add: docstring_step_def split: option.splits prod.splits)

lemma files_compute_complexity [simp]: "files (compute_complexity fp t st) = files st"
  by (simp add: compute_complexity_def Let_def)

lemma files_analyze_structure [simp]: "files (analyze_structure fp t st) = files st"
  unfolding analyze_structure_def
  by (rule fold_preserves) (simp add: structure_step_def Let_def)

lemma files_check_pep8 [simp]: "files (check_pep8 fp code st) = files st"
  unfolding check_pep8_def
  by (rule fold_preserves) (simp split: prod.splits)

lemma files_register_imports [simp]: "files (register_imports fp t st) = files st"
  by (simp add: register_imports_def Let_def)

lemma files_analyze_file: "files (final_state (analyze_file fs parse fp st)) = files st @ [fp]"
  by (simp add: analyze_file_def Let_def split: option.splits parse_outcome.splits)

lemma analyze_file_returns:
  "\<forall>code e. parse code \<noteq> Other_Error e \<Longrightarrow> \<exists>st'. analyze_file fs parse fp st = Inr st'"
  by (auto simp add: analyze_file_def Let_def split: option.splits parse_outcome.splits)

lemma files_analyze_names:
  assumes "\<forall>code e. parse code \<noteq> Other_Error e"
  shows "\<exists>st'. analyze_names fs parse root fls st = Inr st' \<and>
     files st' = files st @ map (os_path_join root) (filter (\<lambda>f. endswith f ''.py'') fls)"
proof (induction fls arbitrary: st)
  case Nil
  show ?case by simp
next
  case (Cons f fls)
  show ?case
  proof (cases "endswith f ''.py''")
    case False
    with Cons.IH [of st] show ?thesis by simp
  next
    case True
    from analyze_file_returns [OF assms] obtain st1
      where st1: "analyze_file fs parse (os_path_join root f) st = Inr st1" by blast
    with files_analyze_file [of fs parse "os_path_join root f" st]
    have "files st1 = files st @ [os_path_join root f]" by simp
    with Cons.IH [of st1] st1 True show ?thesis by simp
  qed
qed

lemma files_analyze_walk:
  assumes "\<forall>code e. parse code \<noteq> Other_Error e"
  shows "\<exists>st'. analyze_walk fs parse triples st = Inr st' \<and>
     files st' = files st @
       concat (map (\<lambda>(root, dirs, fls).
                      map (os_path_join root) (filter (\<lambda>f. endswith f ''.py'') fls)) triples)"
proof (induction triples arbitrary: st)
  case Nil
  show ?case by simp
next
  case (Cons t triples)
  obtain root dirs fls where t: "t = (root, dirs, fls)" by (cases t)
  from files_analyze_names [OF assms, of fs root fls st] obtain st1
    where st1: "analyze_names fs parse root fls st = Inr st1"
      "files st1 = files st @ map (os_path_join root) (filter (\<lambda>f. endswith f ''.py'') fls)"
    by blast
  with Cons.IH [of st1] t show ?case by auto
qed

lemma count_walk:
  "length (concat (map (\<lambda>(root, dirs, fls).
       map (os_path_join root) (filter (\<lambda>f. endswith f ''.py'') fls)) (walk_dir p es))) =
     count_py es"
  "length (concat (map (\<lambda>(root, dirs, fls).
       map (os_path_join root) (filter (\<lambda>f. endswith f ''.py'') fls)) (walk_subdirs p es))) +
   length (filter (\<lambda>f. endswith f ''.py'') (map fst (filter (\<lambda>e. \<not> is_dir (snd e)) es))) =
     count_py es"
  by (induction p es and p es rule: walk_dir_walk_subdirs.induct) simp_all

lemma files_detect_import_cycles [simp]: "files (detect_import_cycles st) = files st"
  by (simp add: detect_import_cycles_def Let_def)

lemma files_print_summary [simp]: "files (print_summary st) = files st"
  by (simp add: print_summary_def)

lemma files_detect_duplicates [simp]:
  "files (final_state (detect_duplicates fs st)) = files st"
proof (cases "collect_seen fs (files st) []")
  case (Inl e)
  then show ?thesis by (simp add: detect_duplicates_def)
next
  case (Inr seen)
  have "files (fold (\<lambda>(snippet, fls) st.
                  if 1 < length fls
                  then st\<lparr>duplicates := duplicates st @ [duplicate_message fls]\<rparr>
                  else st) seen st) = files st"
    by (rule fold_preserves) (simp split: prod.splits)
  with Inr show ?thesis by (simp add: detect_duplicates_def)
qed

lemma files_run:
  "files (final_state (run fs parse path)) =
     (case analyze_root fs parse path
             (init\<lparr>printed := [''[Analyzer] Starting analysis: '' @ path]\<rparr>) of
        None \<Rightarrow> []
      | Some r \<Rightarrow> files (final_state r))"
proof (cases "analyze_root fs parse path (init\<lparr>printed := [''[Analyzer] Starting analysis: '' @ path]\<rparr>)")
  case None
  then show ?thesis by (simp add: run_def init_def)
next
  case (Some r)
  show ?thesis
  proof (cases r)
    case (Inl e)
    with Some show ?thesis by (cases e) (simp add: run_def)
  next
    case (Inr st1)
    have "files (final_state (detect_duplicates fs (detect_import_cycles st1))) = files st1"
      by simp
    then have "files (final_state (case detect_duplicates fs (detect_import_cycles st1) of
                   Inl e \<Rightarrow> Inl e | Inr st2 \<Rightarrow> Inr (print_summary st2))) = files st1"
      by (cases "detect_duplicates fs (detect_import_cycles st1)") auto
    with Some Inr show ?thesis by (simp add: run_def)
  qed
qed

text \<open>
  When the parser raises nothing but \<open>SyntaxError\<close>, the list of analyzed files of a run
  over a valid root has as many entries as there are files with the suffix \<open>.py\<close> under
  the root: one for a file root, every such file of the directory tree for a directory
  root. This holds whether the files can be read and parsed or not, and also in the state
  that a run leaves behind when \<open>_detect_duplicates\<close> raises.
\<close>

theorem analyzed_file_count:
  assumes valid: "valid_root fs path"
    and parser: "\<forall>code e. parse code \<noteq> Other_Error e"
  shows "length (files (final_state (run fs parse path))) = discovered_count fs path"
proof (cases "os_path_isfile fs path \<and> endswith path ''.py''")
  case True
  then show ?thesis
    by (simp add: files_run analyze_root_def discovered_count_def files_analyze_file init_def)
next
  case False
  with valid have "os_path_isdir fs path" by (auto simp add: valid_root_def)
  then obtain entries where dir: "path_object fs path = Some (Dir entries)"
    by (auto simp: os_path_isdir_def split: option.splits elim: is_dir.elims)
  then have isdir: "os_path_isdir fs path" by (simp add: os_path_isdir_def)
  have root: "analyze_root fs parse path st0 =
      Some (analyze_walk fs parse (walk_dir path entries) st0)" for st0
    using False dir isdir by (auto simp add: analyze_root_def os_walk_def)
  have count: "discovered_count fs path = count_py entries"
    using False dir by (auto simp add: discovered_count_def)
  let ?st0 = "init\<lparr>printed := [''[Analyzer] Starting analysis: '' @ path]\<rparr>"
  from files_analyze_walk [OF parser, of fs "walk_dir path entries" ?st0] obtain st1
    where st1: "analyze_walk fs parse (walk_dir path entries) ?st0 = Inr st1"
      "files st1 = files ?st0 @
       concat (map (\<lambda>(root, dirs, fls).
                      map (os_path_join root) (filter (\<lambda>f. endswith f ''.py'') fls))
                 (walk_dir path entries))"
    by blast
  have "length (files st1) = count_py entries"
    by (simp only: st1(2) length_append count_walk(1)) (simp add: init_def)
  with st1(1) show ?thesis
    by (simp add: files_run root count del: walk_dir.simps)
qed

theorem analyzed_file_count_witness:
  "valid_root example_fs ''proj'' \<and>
   (\<forall>code e. lenient_parse code \<noteq> Other_Error e) \<and>
   length (files (final_state (run example_fs lenient_parse ''proj''))) = 3 \<and>
   valid_root unreadable_fs ''proj'' \<and>
   length (files (final_state (run unreadable_fs lenient_parse ''proj''))) = 1"
proof -
  have v1: "valid_root example_fs ''proj''"
    by (simp add: valid_root_def os_path_isdir_def example_fs_def)
  have v2: "valid_root unreadable_fs ''proj''"
    by (simp add: valid_root_def os_path_isdir_def unreadable_fs_def)
  have parser: "\<forall>code e. lenient_parse code \<noteq> Other_Error e"
    by (simp add: lenient_parse_def)
  have c1: "discovered_count example_fs ''proj'' = 3"
    by (simp add: discovered_count_def os_path_isfile_def example_fs_def endswith_def)
  have c2: "discovered_count unreadable_fs ''proj'' = 1"
    by (simp add: discovered_count_def os_path_isfile_def unreadable_fs_def endswith_def)
  show ?thesis
    using analyzed_file_count [OF v1 parser] analyzed_file_count [OF v2 parser]
      v1 v2 c1 c2 parser
    by simp
qed

text \<open>
  C9. The first of two files makes the parser raise an exception that is no
  \<open>SyntaxError\<close>: the exception leaves \<open>_analyze_file\<close> and the loops of \<open>run\<close>, the second
  file is never appended, and the list of analyzed files has one entry for two discovered
  files. It is the defect of C3.
\<close>

theorem parser_exception_stops_discovery:
  "valid_root nul_fs ''proj'' \<and> discovered_count nul_fs ''proj'' = 2 \<and>
   length (files (final_state (run nul_fs example_parse ''proj''))) = 1"
  by code_simp

subsection \<open>Bad files and bad roots\<close>

text \<open>
  A file that is read and for whose text the parser raises \<open>SyntaxError\<close> adds its path to
  the analyzed files and exactly one syntax-error finding to the errors; every other part
  of the results (the complexity scores, the docstring findings, the warnings, the style
  findings, the import graph) is unchanged.
\<close>

theorem syntax_error_file:
  "read_text fs filepath = Some code \<Longrightarrow> parse code = Syntax_Error msg \<Longrightarrow>
   analyze_file fs parse filepath st =
     Inr (st\<lparr>files := files st @ [filepath],
             errors := errors st @ [''Syntax error in '' @ filepath @ '': '' @ msg]\<rparr>)"
  by (simp add: analyze_file_def)

theorem syntax_error_file_witness:
  "read_text example_fs ''proj/b.py'' = Some ''x = ('' \<and>
   example_parse ''x = ('' = Syntax_Error ''invalid syntax (<unknown>, line 1)'' \<and>
   analyze_file example_fs example_parse ''proj/b.py'' init =
     Inr (init\<lparr>files := [''proj/b.py''],
              errors := [''Syntax error in proj/b.py: invalid syntax (<unknown>, line 1)'']\<rparr>)"
proof -
  have r: "read_text example_fs ''proj/b.py'' = Some ''x = (''"
    by (simp add: example_fs_def)
  have p: "example_parse ''x = ('' = Syntax_Error ''invalid syntax (<unknown>, line 1)''"
    by (simp add: example_parse_def)
  show ?thesis
    using syntax_error_file [of example_fs "''proj/b.py''" "''x = (''" example_parse
        "''invalid syntax (<unknown>, line 1)''" init] r p
    by (simp add: init_def)
qed

text \<open>
  For another exception of the parser nothing is recorded but the path: the exception
  leaves \<open>_analyze_file\<close>.
\<close>

lemma parser_exception_file:
  "read_text fs filepath = Some code \<Longrightarrow> parse code = Other_Error msg \<Longrightarrow>
   analyze_file fs parse filepath st =
     Inl (ParserError msg, st\<lparr>files := files st @ [filepath]\<rparr>)"
  by (simp add: analyze_file_def)

text \<open>
  C3. The text of a file holds a null byte and the parser raises \<open>ValueError\<close> for it. The
  handler in \<open>_analyze_file\<close> catches \<open>SyntaxError\<close> only, so no error finding is recorded
  for the file and the exception leaves \<open>run\<close>.
\<close>

theorem parser_exception_leaves_run:
  "read_text nul_fs ''proj/a.py'' = Some (''x = 1'' @ [CHR 0x00]) \<and>
   example_parse (''x = 1'' @ [CHR 0x00]) =
     Other_Error ''source code string cannot contain null bytes'' \<and>
   run nul_fs example_parse ''proj'' =
     Inl (ParserError ''source code string cannot contain null bytes'',
          \<lparr>files = [''proj/a.py''], errors = [], warnings = [], complexity = [],
           missing_docstrings = [], duplicates = [], import_cycles = [], pep8 = [],
           imports_graph = [],
           printed = [''[Analyzer] Starting analysis: proj'']\<rparr>)"
  by code_simp

text \<open>
  C2, as the code has it. For a root that is neither a file with the suffix \<open>.py\<close> nor a
  directory, the run returns early: it has printed the line \<open>[ERROR] Invalid path.\<close> after
  its start line and has recorded nothing. The errors, the analyzed files and every
  collection of findings are empty.
\<close>

theorem invalid_root_run:
  "\<not> valid_root fs path \<Longrightarrow>
   run fs parse path =
     Inr (init\<lparr>printed :=
            [''[Analyzer] Starting analysis: '' @ path, ''[ERROR] Invalid path.'']\<rparr>)"
  by (auto simp add: run_def analyze_root_def valid_root_def Let_def)

theorem invalid_root_run_witness:
  "\<not> valid_root example_fs ''proj/notes.txt'' \<and>
   run example_fs example_parse ''proj/notes.txt'' =
     Inr \<lparr>files = [], errors = [], warnings = [], complexity = [], missing_docstrings = [],
          duplicates = [], import_cycles = [], pep8 = [], imports_graph = [],
          printed = [''[Analyzer] Starting analysis: proj/notes.txt'',
                     ''[ERROR] Invalid path.'']\<rparr>"
proof -
  have v: "\<not> valid_root example_fs ''proj/notes.txt''"
    by (simp add: valid_root_def os_path_isfile_def os_path_isdir_def example_fs_def)
  show ?thesis
    using invalid_root_run [OF v, of example_parse] v by (simp add: init_def)
qed

text \<open>
  The claim C2 asks for exactly one error in the results of such a run; the results hold
  none.
\<close>

theorem invalid_root_records_no_error:
  "\<not> valid_root example_fs ''missing'' \<and>
   length (errors (final_state (run example_fs example_parse ''missing''))) \<noteq> 1"
  by (simp add: valid_root_def os_path_isfile_def os_path_isdir_def example_fs_def
      run_def analyze_root_def init_def)

text \<open>
  The second reading of the files decides how a run ends whose per-file phase has
  returned: it raises as soon as one analyzed file cannot be read, and it returns when
  all can be read, whether they parse or not.
\<close>

lemma collect_seen_unreadable:
  "p \<in> set ps \<Longrightarrow> read_text fs p = None \<Longrightarrow> \<exists>e. collect_seen fs ps seen = Inl e"
  by (induction ps arbitrary: seen) (auto split: option.splits)

lemma collect_seen_readable:
  "(\<forall>p \<in> set ps. read_text fs p \<noteq> None) \<Longrightarrow> \<exists>seen'. collect_seen fs ps seen = Inr seen'"
  by (induction ps arbitrary: seen) (auto split: option.splits)

lemma run_raises_on_unreadable:
  assumes "analyze_root fs parse path
             (init\<lparr>printed := [''[Analyzer] Starting analysis: '' @ path]\<rparr>) = Some (Inr st1)"
    and "p \<in> set (files st1)" and "read_text fs p = None"
  shows "\<exists>e. run fs parse path = Inl (e, detect_import_cycles st1)"
proof -
  from assms(2,3) obtain e where "collect_seen fs (files (detect_import_cycles st1)) [] = Inl e"
    using collect_seen_unreadable [of p "files st1" fs "[]"] by auto
  then have "detect_duplicates fs (detect_import_cycles st1) = Inl (e, detect_import_cycles st1)"
    by (simp add: detect_duplicates_def)
  with assms(1) show ?thesis by (simp add: run_def)
qed

lemma run_returns_when_readable:
  assumes "analyze_root fs parse path
             (init\<lparr>printed := [''[Analyzer] Starting analysis: '' @ path]\<rparr>) = Some (Inr st1)"
    and "\<forall>p \<in> set (files st1). read_text fs p \<noteq> None"
  shows "\<exists>st. run fs parse path = Inr st"
proof -
  from assms(2) obtain seen where "collect_seen fs (files (detect_import_cycles st1)) [] = Inr seen"
    using collect_seen_readable [of "files st1" fs "[]"] by auto
  then obtain st2 where "detect_duplicates fs (detect_import_cycles st1) = Inr st2"
    by (simp add: detect_duplicates_def)
  with assms(1) show ?thesis by (simp add: run_def)
qed

text \<open>
  C1. A file that cannot be read is recorded as an error by \<open>_analyze_file\<close> and stays in
  the list of analyzed files; \<open>_detect_duplicates\<close> opens every listed file again, outside
  any handler, and the exception leaves \<open>run\<close>: no duplicate detection, no summary.
\<close>

theorem unreadable_file_run_raises:
  "run unreadable_fs example_parse ''proj'' =
     Inl (ReadFailure ''proj/a.py'',
          \<lparr>files = [''proj/a.py''], errors = [''Cannot read file: proj/a.py''],
           warnings = [], complexity = [], missing_docstrings = [],
           duplicates = [], import_cycles = [], pep8 = [], imports_graph = [],
           printed = [''[Analyzer] Starting analysis: proj'']\<rparr>)"
  by code_simp

subsection \<open>Nesting depth\<close>

lemma fold_max_shift:
  "fold max (map (\<lambda>x. a + f x) xs) (a + c) = a + fold max (map f xs) (c::nat)"
  by (induction xs arbitrary: c) (simp_all flip: nat_add_max_right)

lemma fold_max_shift_start:
  assumes "xs \<noteq> []" and "c \<le> a"
  shows "fold max (map (\<lambda>x. a + f x) xs) c = a + fold max (map f xs) (0::nat)"
proof -
  from assms(1) obtain x ys where xs: "xs = x # ys" by (cases xs) auto
  have "max (a + f x) c = a + f x" using assms(2) by simp
  then show ?thesis
    using fold_max_shift [of a f ys "f x"] by (simp add: xs)
qed

lemma nesting_depth_chain: "if_has_child n \<Longrightarrow> nesting_depth n cur = cur + chain_depth n"
proof (induction n arbitrary: cur)
  case (Node k l cs)
  show ?case
  proof (cases "k = ast_If")
    case False
    then show ?thesis by simp
  next
    case True
    with Node.prems have ne: "cs \<noteq> []" and all: "list_all if_has_child cs" by simp_all
    have children: "map (\<lambda>child. nesting_depth child (cur + 1)) cs =
        map (\<lambda>child. (cur + 1) + chain_depth child) cs"
      using Node.IH all by (simp add: list_all_iff)
    have "nesting_depth (Node k l cs) cur =
        fold max (map (\<lambda>child. nesting_depth child (cur + 1)) cs) cur"
      using True by simp
    also have "\<dots> = fold max (map (\<lambda>child. (cur + 1) + chain_depth child) cs) cur"
      by (simp only: children)
    also have "\<dots> = (cur + 1) + fold max (map chain_depth cs) 0"
      by (rule fold_max_shift_start [OF ne]) simp
    finally show ?thesis using True by simp
  qed
qed

lemma walk_if_has_child: "list_all if_has_child ts \<Longrightarrow> list_all if_has_child (walk ts)"
proof (induction ts rule: walk.induct)
  case 1
  show ?case by simp
next
  case (2 n todo)
  then show ?case by (cases n) simp
qed

lemma warnings_fold_structure:
  "warnings (fold (structure_step fp) ns st) =
     warnings st @ map (\<lambda>n. nesting_warning fp (lineno n) (nesting_depth n 0))
                     (filter (\<lambda>n. kind n = ast_If \<and> 4 < nesting_depth n 0) ns)"
  by (induction ns arbitrary: st) (simp_all add: structure_step_def Let_def)

text \<open>
  C5, as the code has it. In a tree of the parser, the measured depth of every \<open>if\<close> node is
  1 plus the largest measured depth of an \<open>if\<close> among its direct children, and 1 when no
  child is an \<open>if\<close>; a conditional below a child that is not itself an \<open>if\<close> does not
  count. The depth is measured for each \<open>if\<close> node on its own, and the warning with the
  line of the node and its depth is emitted if and only if that depth exceeds 4, in the
  order of the walk.
\<close>

theorem nesting_depth_direct_chain:
  assumes "if_has_child tree"
  shows "(\<forall>n \<in> set (walk [tree]). kind n = ast_If \<longrightarrow> nesting_depth n 0 = chain_depth n) \<and>
   warnings (analyze_structure filepath tree st) =
     warnings st @ map (\<lambda>n. nesting_warning filepath (lineno n) (chain_depth n))
                     (filter (\<lambda>n. kind n = ast_If \<and> 4 < chain_depth n) (walk [tree]))"
proof -
  have "list_all if_has_child (walk [tree])"
    by (rule walk_if_has_child) (simp add: assms)
  then have eq: "\<forall>n \<in> set (walk [tree]). nesting_depth n 0 = chain_depth n"
    by (simp add: list_all_iff nesting_depth_chain del: walk.simps)
  then have same: "map (\<lambda>n. nesting_warning filepath (lineno n) (nesting_depth n 0))
          (filter (\<lambda>n. kind n = ast_If \<and> 4 < nesting_depth n 0) (walk [tree])) =
        map (\<lambda>n. nesting_warning filepath (lineno n) (chain_depth n))
          (filter (\<lambda>n. kind n = ast_If \<and> 4 < chain_depth n) (walk [tree]))"
    by (metis (mono_tags, lifting) filter_cong map_eq_conv mem_Collect_eq set_filter)
  have "warnings (analyze_structure filepath tree st) =
      warnings st @ map (\<lambda>n. nesting_warning filepath (lineno n) (nesting_depth n 0))
          (filter (\<lambda>n. kind n = ast_If \<and> 4 < nesting_depth n 0) (walk [tree]))"
    by (simp only: analyze_structure_def warnings_fold_structure)
  then have emitted: "warnings (analyze_structure filepath tree st) =
      warnings st @ map (\<lambda>n. nesting_warning filepath (lineno n) (chain_depth n))
          (filter (\<lambda>n. kind n = ast_If \<and> 4 < chain_depth n) (walk [tree]))"
    by (simp only: same)
  from eq have "\<forall>n \<in> set (walk [tree]). kind n = ast_If \<longrightarrow> nesting_depth n 0 = chain_depth n"
    by blast
  with emitted show ?thesis by (rule conjI [rotated])
qed

theorem nesting_depth_direct_chain_witness:
  "if_has_child if_chain \<and> nesting_depth if_chain 0 = 5 \<and>
   warnings (analyze_structure ''a.py'' if_chain init) = [''a.py:1 -> Deep nesting (5 levels)'']"
proof -
  have wf: "if_has_child if_chain"
    by (simp add: if_chain_def)
  have root: "if_chain \<in> set (walk [if_chain])" "kind if_chain = ast_If"
    by (simp_all add: if_chain_def)
  have depth: "chain_depth if_chain = 5"
    by (simp add: if_chain_def)
  have emitted: "map (\<lambda>n. nesting_warning ''a.py'' (lineno n) (chain_depth n))
      (filter (\<lambda>n. kind n = ast_If \<and> 4 < chain_depth n) (walk [if_chain])) =
      [''a.py:1 -> Deep nesting (5 levels)'']"
    by code_simp
  note t = nesting_depth_direct_chain [OF wf, of "''a.py''" init]
  from t root depth have "nesting_depth if_chain 0 = 5"
    by auto
  moreover from t emitted
  have "warnings (analyze_structure ''a.py'' if_chain init) = [''a.py:1 -> Deep nesting (5 levels)'']"
    by (simp add: init_def)
  ultimately show ?thesis using wf by simp
qed

text \<open>
  The claim C5 measures the depth over every descendant. Five conditionals that each sit
  in a loop in the body of the one before have depth 5 in that sense; the code measures 1
  and emits no warning.
\<close>

theorem nesting_depth_ignores_loops:
  "descendant_depth if_in_loops = 5 \<and> nesting_depth if_in_loops 0 = 1 \<and>
   warnings (analyze_structure ''a.py'' if_in_loops init) = []"
  by (simp add: if_in_loops_def analyze_structure_def structure_step_def init_def)

subsection \<open>Style checks\<close>





lemma pep8_analyze_docstrings [simp]: "pep8 (analyze_docstrings fp t st) = pep8 st"
  unfolding analyze_docstrings_def
  by (rule fold_preserves) (simp add: docstring_step_def split: option.splits prod.splits)

lemma pep8_compute_complexity [simp]: "pep8 (compute_complexity fp t st) = pep8 st"
  by (simp add: compute_complexity_def Let_def)

lemma pep8_analyze_structure [simp]: "pep8 (analyze_structure fp t st) = pep8 st"
  unfolding analyze_structure_def
  by (rule fold_preserves) (simp add: structure_step_def Let_def)

lemma pep8_register_imports [simp]: "pep8 (register_imports fp t st) = pep8 st"
  by (simp add: register_imports_def Let_def)

lemma style_checks_skip_unparsed:
  "read_text fs filepath = Some code \<Longrightarrow> parse code = Syntax_Error msg \<Longrightarrow>
   pep8 (final_state (analyze_file fs parse filepath st)) = pep8 st"
  by (simp add: analyze_file_def)






subsection \<open>Import cycles\<close>

lemma graph_get_key: "b \<in> set (graph_get graph a) \<Longrightarrow> a \<in> set (map fst graph)"
proof -
  assume "b \<in> set (graph_get graph a)"
  then have "map_of graph a \<noteq> None"
    by (cases "map_of graph a") (simp_all add: graph_get_def)
  then show ?thesis
    by (simp add: map_of_eq_None_iff)
qed

lemma dfs_two_cycle:
  assumes "a \<noteq> b" and "b \<in> set (graph_get graph a)" and "a \<in> set (graph_get graph b)"
  shows "cycle_message [a, b, a] \<in> set (dfs graph a [])"
proof -
  have "dfs graph a [a, b] = [cycle_message [a, b, a]]"
    by (simp add: dfs.simps [of graph a "[a, b]"])
  then have "cycle_message [a, b, a] \<in> set (dfs graph b [a])"
    using assms(1,3) by (subst dfs.simps) force
  then show ?thesis
    using assms(2) by (subst dfs.simps) force
qed

lemma cycle_message_differs:
  assumes "a \<noteq> b"
  shows "cycle_message [a, b, a] \<noteq> cycle_message [b, a, b]"
proof
  assume "cycle_message [a, b, a] = cycle_message [b, a, b]"
  then have eq: "a @ ('' -> '' @ b @ '' -> '' @ a) = b @ ('' -> '' @ a @ '' -> '' @ b)"
    by (simp add: cycle_message_def)
  then have "length (a @ ('' -> '' @ b @ '' -> '' @ a)) = length (b @ ('' -> '' @ a @ '' -> '' @ b))"
    by (rule arg_cong)
  then have "length a = length b" by simp
  with eq have "a = b" by (metis append_eq_append_conv)
  with assms show False by simp
qed

text \<open>
  C7. In an import graph in which module \<open>a\<close> imports \<open>b\<close> and \<open>b\<close> imports \<open>a\<close> (two
  different modules), the cycle detector reports the cycle once for the traversal started
  at \<open>a\<close> and once for the traversal started at \<open>b\<close>, each joined in the order of the
  visit from the start node back to itself. The two reports are different findings and
  both are kept: for the graph of just these two edges the detector appends exactly the
  two of them.
\<close>

theorem two_module_cycle:
  assumes "a \<noteq> b"
    and "b \<in> set (graph_get (imports_graph st) a)"
    and "a \<in> set (graph_get (imports_graph st) b)"
  shows "cycle_message [a, b, a] \<in> set (import_cycles (detect_import_cycles st)) \<and>
     cycle_message [b, a, b] \<in> set (import_cycles (detect_import_cycles st)) \<and>
     cycle_message [a, b, a] \<noteq> cycle_message [b, a, b] \<and>
     import_cycles (detect_import_cycles (st\<lparr>imports_graph := [(a, [b]), (b, [a])]\<rparr>)) =
       import_cycles st @ [cycle_message [a, b, a], cycle_message [b, a, b]]"
proof -
  let ?g = "imports_graph st"
  have ka: "a \<in> set (map fst ?g)" and kb: "b \<in> set (map fst ?g)"
    using assms(2,3) by (auto dest: graph_get_key)
  have "cycle_message [a, b, a] \<in> set (dfs ?g a [])"
    using assms by (intro dfs_two_cycle)
  with ka have first: "cycle_message [a, b, a] \<in> set (import_cycles (detect_import_cycles st))"
    by (auto simp add: detect_import_cycles_def Let_def)
  have "cycle_message [b, a, b] \<in> set (dfs ?g b [])"
    using assms by (intro dfs_two_cycle) auto
  with kb have second: "cycle_message [b, a, b] \<in> set (import_cycles (detect_import_cycles st))"
    by (auto simp add: detect_import_cycles_def Let_def)
  let ?m = "[(a, [b]), (b, [a])]"
  have "dfs ?m a [] = [cycle_message [a, b, a]]"
    using assms(1) by (simp add: dfs.simps [of ?m] graph_get_def)
  moreover have "dfs ?m b [] = [cycle_message [b, a, b]]"
    using assms(1) by (simp add: dfs.simps [of ?m] graph_get_def)
  ultimately have minimal: "import_cycles (detect_import_cycles (st\<lparr>imports_graph := ?m\<rparr>)) =
       import_cycles st @ [cycle_message [a, b, a], cycle_message [b, a, b]]"
    by (simp add: detect_import_cycles_def Let_def)
  from first second cycle_message_differs [OF assms(1)] minimal show ?thesis
    by (intro conjI)
qed

theorem two_module_cycle_witness:
  "''A'' \<noteq> ''B'' \<and>
   ''B'' \<in> set (graph_get [(''A'', [''os'', ''B'']), (''B'', [''A'']), (''C'', [])] ''A'') \<and>
   ''A'' \<in> set (graph_get [(''A'', [''os'', ''B'']), (''B'', [''A'']), (''C'', [])] ''B'') \<and>
   ''Cycle detected: A -> B -> A'' \<in> set (import_cycles (detect_import_cycles
       (init\<lparr>imports_graph := [(''A'', [''os'', ''B'']), (''B'', [''A'']), (''C'', [])]\<rparr>))) \<and>
   ''Cycle detected: B -> A -> B'' \<in> set (import_cycles (detect_import_cycles
       (init\<lparr>imports_graph := [(''A'', [''os'', ''B'']), (''B'', [''A'']), (''C'', [])]\<rparr>))) \<and>
   import_cycles (detect_import_cycles (init\<lparr>imports_graph := [(''A'', [''B'']), (''B'', [''A''])]\<rparr>)) =
     [''Cycle detected: A -> B -> A'', ''Cycle detected: B -> A -> B'']"
proof -
  let ?st = "init\<lparr>imports_graph := [(''A'', [''os'', ''B'']), (''B'', [''A'']), (''C'', [])]\<rparr>"
  have h1: "''A'' \<noteq> ''B''" by simp
  have h2: "''B'' \<in> set (graph_get (imports_graph ?st) ''A'')"
    by (simp add: graph_get_def)
  have h3: "''A'' \<in> set (graph_get (imports_graph ?st) ''B'')"
    by (simp add: graph_get_def)
  show ?thesis
    using two_module_cycle [OF h1 h2 h3] h2 h3
    by (simp add: cycle_message_def init_def)
qed

subsection \<open>Import extraction\<close>

lemma children_erase_relative: "children (erase_relative n) = map erase_relative (children n)"
  by (cases n) simp

lemma walk_erase_relative: "walk (map erase_relative ts) = map erase_relative (walk ts)"
proof (induction ts rule: walk.induct)
  case 1
  show ?case by simp
next
  case (2 n todo)
  then show ?case by (simp add: children_erase_relative)
qed

lemma node_imports_erase_relative: "node_imports (kind (erase_relative n)) = node_imports (kind n)"
  by (cases n) simp

lemma fold_imports:
  "fold (\<lambda>node imports. imports @ node_imports (kind node)) ns acc =
     acc @ concat (map (\<lambda>node. node_imports (kind node)) ns)"
  by (induction ns arbitrary: acc) simp_all

lemma concat_skip_empty:
  "(\<And>x. x \<in> set xs \<Longrightarrow> \<not> P x \<Longrightarrow> f x = []) \<Longrightarrow> concat (map f (filter P xs)) = concat (map f xs)"
  by (induction xs) simp_all

lemma imports_of_erase_relative: "imports_of (erase_relative tree) = imports_of tree"
proof -
  have "walk [erase_relative tree] = map erase_relative (walk [tree])"
    using walk_erase_relative [of "[tree]"] by simp
  then show ?thesis
    by (simp only: imports_of_def fold_imports map_map o_def node_imports_erase_relative)
qed

text \<open>
  C10. An import-from statement without a module (\<open>from . import x\<close>) adds nothing to the
  list of imports of its file: the list is what the other nodes of the tree add. The entry
  of the file in the import graph, and with it every reported cycle, is the same as for the
  tree in which these statements are replaced by nodes of another class.
\<close>

theorem relative_import_records_nothing:
  "node_imports (ast_ImportFrom None) = [] \<and>
   imports_of tree =
     concat (map (\<lambda>node. node_imports (kind node))
               (filter (\<lambda>node. kind node \<noteq> ast_ImportFrom None) (walk [tree]))) \<and>
   register_imports filepath (erase_relative tree) st = register_imports filepath tree st \<and>
   import_cycles (detect_import_cycles (register_imports filepath (erase_relative tree) st)) =
     import_cycles (detect_import_cycles (register_imports filepath tree st))"
proof -
  have skip: "concat (map (\<lambda>node. node_imports (kind node))
               (filter (\<lambda>node. kind node \<noteq> ast_ImportFrom None) (walk [tree]))) =
      concat (map (\<lambda>node. node_imports (kind node)) (walk [tree]))"
    by (rule concat_skip_empty) simp
  have listed: "imports_of tree =
     concat (map (\<lambda>node. node_imports (kind node))
               (filter (\<lambda>node. kind node \<noteq> ast_ImportFrom None) (walk [tree])))"
    by (simp only: skip imports_of_def fold_imports append_Nil)
  have same: "register_imports filepath (erase_relative tree) st = register_imports filepath tree st"
    by (simp only: register_imports_def imports_of_erase_relative)
  have none: "node_imports (ast_ImportFrom None) = []" by simp
  from none listed same show ?thesis by (simp only: simp_thms)
qed

subsection \<open>Duplicates\<close>

lemma seen_get_Nil: "seen_get [] k = []"
  by (simp add: seen_get_def)

lemma seen_append_keys: "distinct (map fst seen) \<Longrightarrow> distinct (map fst (seen_append k f seen))"
  by (simp add: seen_append_def distinct_update)

lemma seen_get_append:
  "seen_get (seen_append k f seen) k' = (if k' = k then seen_get seen k @ [f] else seen_get seen k')"
  by (simp add: seen_append_def seen_get_def update_conv')

lemma collect_seen_groups:
  "collect_seen fs ps seen0 = Inr seen \<Longrightarrow> distinct (map fst seen0) \<Longrightarrow>
   distinct (map fst seen) \<and>
   (\<forall>k. set (seen_get seen k) = set (seen_get seen0 k) \<union> {f \<in> set ps. signature fs f = Some k})"
proof (induction ps arbitrary: seen0)
  case Nil
  then show ?case by simp
next
  case (Cons f ps)
  from Cons.prems(1) obtain content where content: "read_text fs f = Some content"
    by (cases "read_text fs f") simp_all
  let ?k = "take 10 (splitlines content)"
  have sig: "signature fs f = Some ?k" by (simp add: signature_def content)
  from Cons.prems(1) content have rest: "collect_seen fs ps (seen_append ?k f seen0) = Inr seen"
    by simp
  from Cons.IH [OF rest seen_append_keys [OF Cons.prems(2)]]
  have d: "distinct (map fst seen)"
    and g: "\<And>k. set (seen_get seen k) =
       set (seen_get (seen_append ?k f seen0) k) \<union> {f \<in> set ps. signature fs f = Some k}"
    by simp_all
  have "set (seen_get seen k) = set (seen_get seen0 k) \<union> {f' \<in> set (f # ps). signature fs f' = Some k}" for k
    using g [of k] sig by (auto simp add: seen_get_append)
  with d show ?case by simp
qed

lemma filter_key_once:
  "distinct (map fst xs) \<Longrightarrow> k \<in> set (map fst xs) \<Longrightarrow> length (filter (\<lambda>e. fst e = k) xs) = 1"
proof (induction xs)
  case Nil
  then show ?case by simp
next
  case (Cons x xs)
  show ?case
  proof (cases "fst x = k")
    case True
    with Cons.prems(1) have "k \<notin> fst ` set xs" by simp
    then have "\<forall>e \<in> set xs. fst e \<noteq> k" by blast
    then have "filter (\<lambda>e. fst e = k) xs = []" by (simp add: filter_empty_conv)
    with True show ?thesis by simp
  next
    case False
    with Cons show ?thesis by simp
  qed
qed

lemma filter_filter_map_snd:
  "filter P (filter Q (map snd xs)) = map snd (filter (\<lambda>e. Q (snd e) \<and> P (snd e)) xs)"
  by (induction xs) simp_all

lemma seen_entry: "distinct (map fst seen) \<Longrightarrow> (k, g) \<in> set seen \<Longrightarrow> seen_get seen k = g"
  by (simp add: seen_get_def)

lemma duplicates_fold:
  "fold (\<lambda>(snippet, fls) st.
           if 1 < length fls
           then st\<lparr>duplicates := duplicates st @ [duplicate_message fls]\<rparr>
           else st) seen st =
     st\<lparr>duplicates := duplicates st @ map duplicate_message (duplicate_groups seen)\<rparr>"
  by (induction seen arbitrary: st) (simp_all add: duplicate_groups_def split: prod.splits)

text \<open>
  The grouping when every analyzed file can be read: two different analyzed files with the
  same signature (the same first 10 lines, or the same lines altogether when they have
  fewer) are together in exactly one of the reported groups, the detector appends one
  finding per reported group, and no file with another signature is in the group of the
  two.
\<close>

theorem duplicate_group_of_pair:
  assumes readable: "\<forall>f \<in> set (files st). read_text fs f \<noteq> None"
    and p: "p \<in> set (files st)" and q: "q \<in> set (files st)" and pq: "p \<noteq> q"
    and same: "signature fs p = signature fs q"
  shows "\<exists>seen. collect_seen fs (files st) [] = Inr seen \<and>
     detect_duplicates fs st =
       Inr (st\<lparr>duplicates := duplicates st @ map duplicate_message (duplicate_groups seen)\<rparr>) \<and>
     length (filter (\<lambda>g. p \<in> set g \<and> q \<in> set g) (duplicate_groups seen)) = 1 \<and>
     (\<forall>g \<in> set (duplicate_groups seen). p \<in> set g \<longrightarrow>
        (\<forall>r. signature fs r \<noteq> signature fs p \<longrightarrow> r \<notin> set g))"
proof -
  from readable obtain seen where seen: "collect_seen fs (files st) [] = Inr seen"
    using collect_seen_readable [of "files st" fs "[]"] by auto
  have grouped: "distinct (map fst seen) \<and>
      (\<forall>k. set (seen_get seen k) =
         set (seen_get [] k) \<union> {f \<in> set (files st). signature fs f = Some k})"
    by (rule collect_seen_groups [OF seen]) simp
  then have d: "distinct (map fst seen)" by (rule conjunct1)
  from grouped
  have members: "set (seen_get seen k) = {f \<in> set (files st). signature fs f = Some k}" for k
    by (simp add: seen_get_Nil)
  from readable p obtain k where k: "signature fs p = Some k"
    by (cases "read_text fs p") (auto simp add: signature_def)
  have entry: "e \<in> set seen \<Longrightarrow> set (snd e) = {f \<in> set (files st). signature fs f = Some (fst e)}" for e
    using members [of "fst e"] seen_entry [OF d, of "fst e" "snd e"] by simp
  have pk: "p \<in> set (seen_get seen k)" and qk: "q \<in> set (seen_get seen k)"
    using members [of k] p q k same by auto
  from pk have "map_of seen k \<noteq> None"
    by (cases "map_of seen k") (simp_all add: seen_get_def)
  then have key: "k \<in> set (map fst seen)"
    by (simp add: map_of_eq_None_iff)
  have pick: "e \<in> set seen \<Longrightarrow>
      (1 < length (snd e) \<and> p \<in> set (snd e) \<and> q \<in> set (snd e)) = (fst e = k)" for e
  proof
    assume e: "e \<in> set seen" and "1 < length (snd e) \<and> p \<in> set (snd e) \<and> q \<in> set (snd e)"
    then have "p \<in> set (snd e)" by simp
    with entry [OF e] k show "fst e = k" by simp
  next
    assume e: "e \<in> set seen" and "fst e = k"
    with entry [OF e] p q k same have in_g: "p \<in> set (snd e)" "q \<in> set (snd e)" by auto
    with pq have "card {p, q} \<le> card (set (snd e))"
      by (intro card_mono) auto
    with pq have "2 \<le> card (set (snd e))" by simp
    also have "\<dots> \<le> length (snd e)" by (rule card_length)
    finally show "1 < length (snd e) \<and> p \<in> set (snd e) \<and> q \<in> set (snd e)"
      using in_g by simp
  qed
  have "filter (\<lambda>e. 1 < length (snd e) \<and> p \<in> set (snd e) \<and> q \<in> set (snd e)) seen =
      filter (\<lambda>e. fst e = k) seen"
    by (rule filter_cong [OF refl]) (rule pick)
  then have "filter (\<lambda>g. p \<in> set g \<and> q \<in> set g) (duplicate_groups seen) =
      map snd (filter (\<lambda>e. fst e = k) seen)"
    by (simp only: duplicate_groups_def filter_filter_map_snd)
  then have once: "length (filter (\<lambda>g. p \<in> set g \<and> q \<in> set g) (duplicate_groups seen)) = 1"
    by (simp only: length_map filter_key_once [OF d key])
  have absent: "\<forall>g \<in> set (duplicate_groups seen). p \<in> set g \<longrightarrow>
        (\<forall>r. signature fs r \<noteq> signature fs p \<longrightarrow> r \<notin> set g)"
  proof (intro ballI impI allI)
    fix g r
    assume "g \<in> set (duplicate_groups seen)" and pg: "p \<in> set g"
      and differs: "signature fs r \<noteq> signature fs p"
    then obtain e where e: "e \<in> set seen" and g: "g = snd e"
      by (auto simp add: duplicate_groups_def)
    from entry [OF e] pg g k have "fst e = k" by simp
    with entry [OF e] g differs k show "r \<notin> set g" by auto
  qed
  have "detect_duplicates fs st =
       Inr (st\<lparr>duplicates := duplicates st @ map duplicate_message (duplicate_groups seen)\<rparr>)"
    by (simp only: detect_duplicates_def seen sum.case duplicates_fold)
  with seen once absent show ?thesis
    by (intro exI [of _ seen] conjI)
qed


theorem duplicate_group_of_pair_witness:
  "map (read_text example_fs) example_files = [Some ''x = 1'', Some ''x = ('', Some ''x = 1''] \<and>
   signature example_fs ''proj/a.py'' = signature example_fs ''proj/sub/c.py'' \<and>
   signature example_fs ''proj/b.py'' \<noteq> signature example_fs ''proj/a.py'' \<and>
   detect_duplicates example_fs (init\<lparr>files := example_files\<rparr>) =
     Inr (init\<lparr>files := example_files,
              duplicates := [''Possible duplicate code in: proj/a.py, proj/sub/c.py'']\<rparr>)"
proof -
  let ?st = "init\<lparr>files := example_files\<rparr>"
  have texts: "map (read_text example_fs) example_files =
      [Some ''x = 1'', Some ''x = ('', Some ''x = 1'']"
    by (simp add: example_fs_def example_files_def)
  have readable: "\<forall>f \<in> set (files ?st). read_text example_fs f \<noteq> None"
    by (simp add: example_fs_def example_files_def)
  have p: "''proj/a.py'' \<in> set (files ?st)" and q: "''proj/sub/c.py'' \<in> set (files ?st)"
    by (simp_all add: example_files_def)
  have pq: "''proj/a.py'' \<noteq> ''proj/sub/c.py''" by simp
  have same: "signature example_fs ''proj/a.py'' = signature example_fs ''proj/sub/c.py''"
    by (simp add: signature_def example_fs_def)
  have other: "signature example_fs ''proj/b.py'' \<noteq> signature example_fs ''proj/a.py''"
    by (simp add: signature_def example_fs_def is_linebreak_def)
  have seen: "collect_seen example_fs (files ?st) [] =
      Inr [([''x = 1''], [''proj/a.py'', ''proj/sub/c.py'']), ([''x = (''], [''proj/b.py''])]"
    by code_simp
  have groups: "map duplicate_message (duplicate_groups
      [([''x = 1''], [''proj/a.py'', ''proj/sub/c.py'']), ([''x = (''], [''proj/b.py''])]) =
      [''Possible duplicate code in: proj/a.py, proj/sub/c.py'']"
    by code_simp
  from duplicate_group_of_pair [OF readable p q pq same] seen groups
  have "detect_duplicates example_fs ?st =
     Inr (init\<lparr>files := example_files,
              duplicates := [''Possible duplicate code in: proj/a.py, proj/sub/c.py'']\<rparr>)"
    by (auto simp add: init_def)
  with texts same other show ?thesis by (intro conjI)
qed

text \<open>
  C8. Two analyzed files can be read and have the same signature, a third analyzed file
  cannot be read: \<open>_detect_duplicates\<close> raises while it reads the third file, before it
  reports any group, so the two files are in no finding at all. It is the defect of C1.
\<close>

theorem unreadable_file_hides_duplicates:
  "signature mixed_fs ''proj/a.py'' = Some [''x = 1''] \<and>
   signature mixed_fs ''proj/c.py'' = Some [''x = 1''] \<and>
   run mixed_fs example_parse ''proj'' =
     Inl (ReadFailure ''proj/d.py'',
          \<lparr>files = [''proj/a.py'', ''proj/c.py'', ''proj/d.py''],
           errors = [''Cannot read file: proj/d.py''], warnings = [],
           complexity = [(''proj/a.py'', 1), (''proj/c.py'', 1)],
           missing_docstrings = [], duplicates = [], import_cycles = [],
           pep8 = [], imports_graph = [(''a'', []), (''c'', [])],
           printed = [''[Analyzer] Starting analysis: proj'']\<rparr>)"
  by code_simp

end
